theory Spec2Isabelle
  imports Main
begin

section \<open>The snake game: data and memory model\<close>

text \<open>
  The game state of \<^verbatim>\<open>snake.c\<close> lives in local variables of \<^verbatim>\<open>main\<close> that are handed to
  the other functions by address: the array \<^verbatim>\<open>Point snake[LENGTH_SNAKE]\<close>, and the integers
  \<^verbatim>\<open>length\<close>, \<^verbatim>\<open>gameover\<close>, \<^verbatim>\<open>score\<close>, \<^verbatim>\<open>fruitx\<close>, \<^verbatim>\<open>fruity\<close> and \<^verbatim>\<open>flag\<close>.
  The functions are embedded with explicit state passing. C integers are modelled as
  mathematical integers: every value the game computes is a board coordinate, a length or a
  score, far from the limits of \<^verbatim>\<open>int\<close>. The calls that only print
  (\<^verbatim>\<open>draw\<close>, \<^verbatim>\<open>erase_old_snake\<close>, \<^verbatim>\<open>erase_old_fruit\<close>, \<^verbatim>\<open>draw_fruit\<close>, \<^verbatim>\<open>draw_score\<close>) and
  the \<^verbatim>\<open>stty\<close> call change no variable of the game and are left out.
\<close>

text \<open>
  Modelled from the spec: \<^verbatim>\<open>point.h\<close> is not among the sources. The spec's Coordinate is a
  pair of integers, and the code reads and writes the fields \<^verbatim>\<open>x\<close> (the row: \<^verbatim>\<open>draw_snake\<close>
  prints at row \<^verbatim>\<open>x+1\<close>, "down" is \<^verbatim>\<open>x+1\<close>) and \<^verbatim>\<open>y\<close> (the column).
\<close>

record Point =
  x :: int
  y :: int

text \<open>
  Reading or writing an array outside its bounds, and \<^verbatim>\<open>%\<close> by zero, are undefined in C.
  They are results of their own here, so that no theorem speaks about a run that left the
  defined behaviour of the program.
\<close>

datatype error = OutOfBounds | DivByZero

text \<open>
  The array is a list whose length is its capacity (\<^verbatim>\<open>LENGTH_SNAKE\<close> in \<^verbatim>\<open>main\<close>);
  indices are C integers.
\<close>

definition rd :: "Point list \<Rightarrow> int \<Rightarrow> error + Point" where
  "rd arr i = (if 0 \<le> i \<and> i < int (length arr) then Inr (arr ! nat i) else Inl OutOfBounds)"

definition wr :: "Point list \<Rightarrow> int \<Rightarrow> Point \<Rightarrow> error + Point list" where
  "wr arr i p = (if 0 \<le> i \<and> i < int (length arr) then Inr (arr[nat i := p]) else Inl OutOfBounds)"

text \<open>C's \<^verbatim>\<open>%\<close> and \<^verbatim>\<open>/\<close> truncate towards zero.\<close>

definition c_mod :: "int \<Rightarrow> int \<Rightarrow> error + int" where
  "c_mod a b = (if b = 0 then Inl DivByZero else Inr (sgn a * (\<bar>a\<bar> mod \<bar>b\<bar>)))"

definition c_div :: "int \<Rightarrow> int \<Rightarrow> error + int" where
  "c_div a b = (if b = 0 then Inl DivByZero else Inr (sgn a * sgn b * (\<bar>a\<bar> div \<bar>b\<bar>)))"

text \<open>
  A statement that may leave the defined behaviour, followed by the rest of the function:
  the rest runs on the value of the statement, and an error ends the run.
\<close>

definition ebind :: "error + 'a \<Rightarrow> ('a \<Rightarrow> error + 'b) \<Rightarrow> error + 'b" where
  "ebind m f = (case m of Inl e \<Rightarrow> Inl e | Inr v \<Rightarrow> f v)"

lemma ebind_Inr [simp]: "ebind (Inr v) f = f v"
  by (simp add: ebind_def)

lemma ebind_Inl [simp]: "ebind (Inl e) f = Inl e"
  by (simp add: ebind_def)

lemma ebind_cong [fundef_cong]:
  "m = m' \<Longrightarrow> (\<And>v. m' = Inr v \<Longrightarrow> f v = f' v) \<Longrightarrow> ebind m f = ebind m' f'"
  by (cases m') (simp_all add: ebind_def)

text \<open>The assignments \<^verbatim>\<open>arr[i].x = v\<close> and \<^verbatim>\<open>arr[i].y = v\<close> to one field of an element.\<close>

definition wr_x :: "Point list \<Rightarrow> int \<Rightarrow> int \<Rightarrow> error + Point list" where
  "wr_x arr i v = ebind (rd arr i) (\<lambda>p. wr arr i (p\<lparr>x := v\<rparr>))"

definition wr_y :: "Point list \<Rightarrow> int \<Rightarrow> int \<Rightarrow> error + Point list" where
  "wr_y arr i v = ebind (rd arr i) (\<lambda>p. wr arr i (p\<lparr>y := v\<rparr>))"

text \<open>
  The variables that \<^verbatim>\<open>logic\<close> and \<^verbatim>\<open>grow_snake\<close> receive by address. The field \<open>len\<close> is
  the C variable \<^verbatim>\<open>length\<close>.
\<close>

record game =
  snake :: "Point list"
  len :: int
  gameover :: int
  score :: int
  fruitx :: int
  fruity :: int

section \<open>fruits\<close>

text \<open>
  \<^verbatim>\<open>constants.h\<close> is not among the sources: \<open>WIDTH\<close>, \<open>HEIGHT\<close> and \<open>LENGTH_SNAKE\<close> are
  parameters. The two results of \<^verbatim>\<open>rand()\<close>, which are never negative, are the parameters
  \<open>r1\<close> and \<open>r2\<close>. The result is the pair \<^verbatim>\<open>(*fruitx, *fruity)\<close>.
\<close>

definition fruits :: "int \<Rightarrow> int \<Rightarrow> nat \<Rightarrow> nat \<Rightarrow> error + int \<times> int" where
  "fruits WIDTH HEIGHT r1 r2 =
     ebind (c_mod (int r1) (WIDTH - 2)) (\<lambda>m1.
     ebind (c_mod (int r2) (HEIGHT - 2)) (\<lambda>m2.
       Inr (m1 + 1, m2 + 1)))"

section \<open>input\<close>

text \<open>
  Standard input is the list of the bytes that are pending. It is read without blocking, so
  \<^verbatim>\<open>getchar\<close> on an empty input returns \<^verbatim>\<open>EOF\<close>, which is \<open>-1\<close>.
\<close>

definition getchar :: "int list \<Rightarrow> int \<times> int list" where
  "getchar stdin = (case stdin of [] \<Rightarrow> (- 1, []) | c # cs \<Rightarrow> (c, cs))"

definition input :: "int \<Rightarrow> int list \<Rightarrow> int \<times> int list" where
  "input flag stdin =
     (let (ch, in1) = getchar stdin in
      if ch = 27 then
        (let (ch, in2) = getchar in1 in
         if ch = 91 then
           (let (ch, in3) = getchar in2 in
            if ch = 65 then (if flag \<noteq> 1 then 3 else flag, in3)
            else if ch = 66 then (if flag \<noteq> 3 then 1 else flag, in3)
            else if ch = 67 then (if flag \<noteq> 2 then 4 else flag, in3)
            else if ch = 68 then (if flag \<noteq> 4 then 2 else flag, in3)
            else (flag, in3))
         else (flag, in2))
      else if ch = 120 \<or> ch = 88 then (- 1, in1)
      else (flag, in1))"

section \<open>move_snake\<close>

text \<open>The loop \<^verbatim>\<open>for (i = 0; i < length; i++) snake[i] = snake[i+1];\<close> from index \<open>i\<close> on.\<close>

function move_snake_loop :: "int \<Rightarrow> int \<Rightarrow> Point list \<Rightarrow> error + Point list" where
  "move_snake_loop i n arr =
     (if i < n then
        ebind (rd arr (i + 1)) (\<lambda>p.
        ebind (wr arr i p) (\<lambda>arr'.
          move_snake_loop (i + 1) n arr'))
      else Inr arr)"
  by pat_completeness auto
termination
  by (relation "measure (\<lambda>(i, n, arr). nat (n - i))") auto

definition move_snake :: "Point list \<Rightarrow> int \<Rightarrow> int \<Rightarrow> error + Point list" where
  "move_snake arr n flag =
     ebind (rd arr (n - 1)) (\<lambda>temp.
     ebind (move_snake_loop 0 n arr) (\<lambda>arr1.
       if flag = 1 then
         ebind (wr_x arr1 (n - 1) (x temp + 1)) (\<lambda>arr2. wr_y arr2 (n - 1) (y temp))
       else if flag = 2 then
         ebind (wr_x arr1 (n - 1) (x temp)) (\<lambda>arr2. wr_y arr2 (n - 1) (y temp - 1))
       else if flag = 3 then
         ebind (wr_x arr1 (n - 1) (x temp - 1)) (\<lambda>arr2. wr_y arr2 (n - 1) (y temp))
       else if flag = 4 then
         ebind (wr_x arr1 (n - 1) (x temp)) (\<lambda>arr2. wr_y arr2 (n - 1) (y temp + 1))
       else Inr arr1))"

section \<open>check_collision\<close>

text \<open>The loop over the body, from index \<open>i\<close> on; the result is the return code.\<close>

function check_collision_loop :: "int \<Rightarrow> int \<Rightarrow> Point list \<Rightarrow> error + int" where
  "check_collision_loop i n arr =
     (if i < n - 1 then
        ebind (rd arr (n - 1)) (\<lambda>h.
        ebind (rd arr i) (\<lambda>p.
          if x h = x p \<and> y h = y p then Inr 1
          else check_collision_loop (i + 1) n arr))
      else Inr 0)"
  by pat_completeness auto
termination
  by (relation "measure (\<lambda>(i, n, arr). nat (n - i))") auto

definition check_collision :: "int \<Rightarrow> int \<Rightarrow> Point list \<Rightarrow> int \<Rightarrow> error + int" where
  "check_collision WIDTH HEIGHT arr n =
     ebind (rd arr (n - 1)) (\<lambda>h.
       if x h \<le> 0 \<or> x h \<ge> HEIGHT - 1 \<or> y h \<le> 0 \<or> y h \<ge> WIDTH - 1 then Inr 2
       else check_collision_loop 0 n arr)"

section \<open>grow_snake\<close>

text \<open>The loop \<^verbatim>\<open>for (i = *length; i > 0; i--) snake[i] = snake[i-1];\<close> from index \<open>i\<close> down.\<close>

function grow_snake_loop :: "int \<Rightarrow> Point list \<Rightarrow> error + Point list" where
  "grow_snake_loop i arr =
     (if i > 0 then
        ebind (rd arr (i - 1)) (\<lambda>p.
        ebind (wr arr i p) (\<lambda>arr'.
          grow_snake_loop (i - 1) arr'))
      else Inr arr)"
  by pat_completeness auto
termination
  by (relation "measure (\<lambda>(i, arr). nat i)") auto

definition grow_snake :: "int \<Rightarrow> int \<Rightarrow> game \<Rightarrow> nat \<Rightarrow> nat \<Rightarrow> error + game" where
  "grow_snake WIDTH HEIGHT g r1 r2 =
     ebind (rd (snake g) 0) (\<lambda>old.
     ebind (fruits WIDTH HEIGHT r1 r2) (\<lambda>(fx, fy).
     ebind (grow_snake_loop (len g) (snake g)) (\<lambda>arr1.
     ebind (wr arr1 0 old) (\<lambda>arr2.
       Inr (g\<lparr>snake := arr2, len := len g + 1, score := score g + 5,
               fruitx := fx, fruity := fy\<rparr>)))))"

section \<open>logic\<close>

text \<open>The nanoseconds that \<^verbatim>\<open>logic\<close> puts into \<^verbatim>\<open>ts.tv_nsec\<close> before it sleeps.\<close>

definition tv_nsec :: "int \<Rightarrow> int" where
  "tv_nsec sc =
     (if sc \<ge> 25 then 200000000
      else if sc \<ge> 50 then 150000000
      else if sc \<ge> 75 then 100000000
      else 250000000)"

text \<open>
  One call of \<^verbatim>\<open>logic\<close>: the first component is the time slept, the second the variables
  after the call. \<open>r1\<close> and \<open>r2\<close> are what \<^verbatim>\<open>rand()\<close> returns if the snake grows.
\<close>

definition logic :: "int \<Rightarrow> int \<Rightarrow> int \<Rightarrow> game \<Rightarrow> nat \<Rightarrow> nat \<Rightarrow> int \<times> (error + game)" where
  "logic WIDTH HEIGHT flag g r1 r2 =
     (tv_nsec (score g),
      if flag = 0 then Inr g
      else
        ebind (move_snake (snake g) (len g) flag) (\<lambda>arr1.
        ebind (check_collision WIDTH HEIGHT arr1 (len g)) (\<lambda>c.
          let g1 = g\<lparr>snake := arr1, gameover := c\<rparr> in
          if gameover g1 \<noteq> 0 then Inr g1
          else
            ebind (rd (snake g1) (len g1 - 1)) (\<lambda>h.
            ebind (if x h = fruitx g1 \<and> y h = fruity g1
                   then grow_snake WIDTH HEIGHT g1 r1 r2 else Inr g1) (\<lambda>g2.
              Inr (if score g2 = 100 then g2\<lparr>gameover := - 1\<rparr> else g2))))))"

section \<open>main\<close>

text \<open>
  The variables of \<^verbatim>\<open>main\<close> when the loop is entered: the array is zeroed, the first fruit
  is drawn with the random numbers \<open>r1\<close> and \<open>r2\<close>, and the snake is the single segment
  \<^verbatim>\<open>snake[0]\<close>. The direction flag starts at 0.
\<close>

definition init_game :: "int \<Rightarrow> int \<Rightarrow> nat \<Rightarrow> nat \<Rightarrow> nat \<Rightarrow> error + game" where
  "init_game WIDTH HEIGHT LENGTH_SNAKE r1 r2 =
     (let arr0 = replicate LENGTH_SNAKE \<lparr>x = 0, y = 0\<rparr> in
      ebind (fruits WIDTH HEIGHT r1 r2) (\<lambda>(fx, fy).
      ebind (c_div WIDTH 2) (\<lambda>cx.
      ebind (wr_x arr0 0 cx) (\<lambda>arr1.
      ebind (c_div HEIGHT 2) (\<lambda>cy.
      ebind (wr_y arr1 0 cy) (\<lambda>arr2.
        Inr \<lparr>snake = arr2, len = 1, gameover = 0, score = 0, fruitx = fx, fruity = fy\<rparr>))))))"

text \<open>
  The loop \<^verbatim>\<open>while (gameover == 0)\<close>. What the program cannot decide comes from outside,
  one triple for each pass: the bytes that arrived on standard input before \<^verbatim>\<open>input\<close>
  reads, and the two numbers that \<^verbatim>\<open>rand()\<close> returns if the snake grows in that pass. The
  result is the flag and the variables when the loop is left, or after the last pass that
  the list describes. What \<^verbatim>\<open>main\<close> does after the loop (the message, the wait for the
  key \<^verbatim>\<open>x\<close>) changes none of the game's variables but the flag and is left out.
\<close>

fun main_loop ::
  "int \<Rightarrow> int \<Rightarrow> (int list \<times> nat \<times> nat) list \<Rightarrow> int \<Rightarrow> int list \<Rightarrow> game \<Rightarrow> error + int \<times> game"
where
  "main_loop WIDTH HEIGHT [] flag pending g = Inr (flag, g)"
| "main_loop WIDTH HEIGHT ((arrived, r1, r2) # passes) flag pending g =
     (if gameover g = 0 then
        (let (flag', pending') = input flag (pending @ arrived) in
         if flag' = - 1 then Inr (flag', g)
         else
           ebind (snd (logic WIDTH HEIGHT flag' g r1 r2)) (\<lambda>g'.
             main_loop WIDTH HEIGHT passes flag' pending' g'))
      else Inr (flag, g))"

definition main ::
  "int \<Rightarrow> int \<Rightarrow> nat \<Rightarrow> nat \<Rightarrow> nat \<Rightarrow> (int list \<times> nat \<times> nat) list \<Rightarrow> error + int \<times> game"
where
  "main WIDTH HEIGHT LENGTH_SNAKE r1 r2 passes =
     ebind (init_game WIDTH HEIGHT LENGTH_SNAKE r1 r2) (\<lambda>g.
       main_loop WIDTH HEIGHT passes 0 [] g)"

text \<open>
  The invariant of the loop that the proofs about the score use: the score is a multiple of
  5 between 0 and 100, and it is 100 only in a game that is won.
\<close>

definition score_inv :: "game \<Rightarrow> bool" where
  "score_inv g \<longleftrightarrow>
     0 \<le> score g \<and> score g \<le> 100 \<and> 5 dvd score g \<and> (score g = 100 \<longrightarrow> gameover g = - 1)"

text \<open>
  The invariant that keeps the run inside an array of 21 slots or more: the score counts
  the segments after the first, five points each.
\<close>

definition mem_inv :: "game \<Rightarrow> bool" where
  "mem_inv g \<longleftrightarrow> 1 \<le> len g \<and> score g = 5 * (len g - 1) \<and> 21 \<le> length (snake g)"

section \<open>Accesses inside the array and results without error\<close>

lemma ebind_eq_Inr: "ebind m f = Inr r \<longleftrightarrow> (\<exists>v. m = Inr v \<and> f v = Inr r)"
  by (cases m) simp_all

lemma rd_in [simp]: "0 \<le> i \<Longrightarrow> i < int (length arr) \<Longrightarrow> rd arr i = Inr (arr ! nat i)"
  by (simp add: rd_def)

lemma wr_in [simp]: "0 \<le> i \<Longrightarrow> i < int (length arr) \<Longrightarrow> wr arr i p = Inr (arr[nat i := p])"
  by (simp add: wr_def)

lemma wr_x_in [simp]:
  "0 \<le> i \<Longrightarrow> i < int (length arr) \<Longrightarrow> wr_x arr i v = Inr (arr[nat i := (arr ! nat i)\<lparr>x := v\<rparr>])"
  by (simp add: wr_x_def)

lemma wr_y_in [simp]:
  "0 \<le> i \<Longrightarrow> i < int (length arr) \<Longrightarrow> wr_y arr i v = Inr (arr[nat i := (arr ! nat i)\<lparr>y := v\<rparr>])"
  by (simp add: wr_y_def)

declare move_snake_loop.simps [simp del]
declare check_collision_loop.simps [simp del]
declare grow_snake_loop.simps [simp del]

section \<open>Properties of move_snake\<close>

text \<open>
  The loop started at \<open>i\<close> copies every slot from \<open>i\<close> to \<open>n - 1\<close> from its right
  neighbour. Its last pass reads slot \<open>n\<close>, so that slot has to exist.
\<close>

lemma move_snake_loop_shifts:
  "0 \<le> i \<Longrightarrow> n < int (length arr) \<Longrightarrow>
   \<exists>arr'. move_snake_loop i n arr = Inr arr' \<and> length arr' = length arr \<and>
     (\<forall>k < length arr. arr' ! k = (if i \<le> int k \<and> int k < n then arr ! Suc k else arr ! k))"
proof (induction i n arr rule: move_snake_loop.induct)
  case (1 i n arr)
  show ?case
  proof (cases "i < n")
    case False
    then show ?thesis by (simp add: move_snake_loop.simps [of i n arr])
  next
    case True
    let ?arr1 = "arr[nat i := arr ! nat (i + 1)]"
    have r: "rd arr (i + 1) = Inr (arr ! nat (i + 1))"
      using True 1(2,3) by simp
    have w: "wr arr i (arr ! nat (i + 1)) = Inr ?arr1"
      using True 1(2,3) by simp
    have "\<exists>arr'. move_snake_loop (i + 1) n ?arr1 = Inr arr' \<and> length arr' = length ?arr1 \<and>
      (\<forall>k < length ?arr1. arr' ! k = (if i + 1 \<le> int k \<and> int k < n then ?arr1 ! Suc k else ?arr1 ! k))"
      using 1(1) [OF True r w] 1(2,3) by simp
    then obtain arr' where a: "move_snake_loop (i + 1) n ?arr1 = Inr arr'"
      and l: "length arr' = length arr"
      and k: "\<And>k. k < length arr \<Longrightarrow>
        arr' ! k = (if i + 1 \<le> int k \<and> int k < n then ?arr1 ! Suc k else ?arr1 ! k)"
      by auto
    have step: "move_snake_loop i n arr = Inr arr'"
      using True r w a by (simp add: move_snake_loop.simps [of i n arr])
    have "arr' ! k = (if i \<le> int k \<and> int k < n then arr ! Suc k else arr ! k)"
      if "k < length arr" for k
    proof -
      have ni: "nat (i + 1) = Suc (nat i)" using 1(2) by simp
      show ?thesis
        using k [OF that] that 1(2,3) True
        by (auto simp: nth_list_update ni)
    qed
    with step l show ?thesis by blast
  qed
qed

text \<open>
  With a free slot behind the head the shift is what one expects. A snake of length
  \<open>L \<ge> 1\<close> occupies the slots \<open>0 .. L - 1\<close> of the array, the head last; if the array has
  the slot \<open>L\<close> that the last pass of the loop reads, then for every direction flag 1
  (down), 2 (left), 3 (up), 4 (right), \<^verbatim>\<open>move_snake\<close> returns an array of the same size in
  which segment \<open>i\<close> is the old segment \<open>i + 1\<close> for every \<open>i\<close> from 0 to \<open>L - 2\<close>, and the
  head, in slot \<open>L - 1\<close>, is the old head moved by one cell: row \<open>x + 1\<close> for down, row
  \<open>x - 1\<close> for up, column \<open>y + 1\<close> for right, column \<open>y - 1\<close> for left. The slots from \<open>L\<close>
  on keep their content.
\<close>

lemma move_snake_with_free_slot:
  assumes "1 \<le> L" and "L < int (length arr)" and "flag \<in> {1, 2, 3, 4}"
  shows "\<exists>arr'. move_snake arr L flag = Inr arr' \<and> length arr' = length arr \<and>
    (\<forall>i. 0 \<le> i \<and> i \<le> L - 2 \<longrightarrow> arr' ! nat i = arr ! nat (i + 1)) \<and>
    x (arr' ! nat (L - 1)) =
      x (arr ! nat (L - 1)) + (if flag = 1 then 1 else if flag = 3 then - 1 else 0) \<and>
    y (arr' ! nat (L - 1)) =
      y (arr ! nat (L - 1)) + (if flag = 4 then 1 else if flag = 2 then - 1 else 0) \<and>
    (\<forall>i. L \<le> i \<and> i < int (length arr) \<longrightarrow> arr' ! nat i = arr ! nat i)"
proof -
  obtain arr1 where a: "move_snake_loop 0 L arr = Inr arr1"
    and l: "length arr1 = length arr"
    and k: "\<And>k. k < length arr \<Longrightarrow>
      arr1 ! k = (if 0 \<le> int k \<and> int k < L then arr ! Suc k else arr ! k)"
    using move_snake_loop_shifts [of 0 L arr] assms(2) by auto
  let ?h = "arr ! nat (L - 1)"
  define hx where "hx = x ?h + (if flag = 1 then 1 else if flag = 3 then - 1 else 0)"
  define hy where "hy = y ?h + (if flag = 4 then 1 else if flag = 2 then - 1 else 0)"
  let ?arr' = "arr1[nat (L - 1) := (arr1 ! nat (L - 1))\<lparr>x := hx, y := hy\<rparr>]"
  have m: "move_snake arr L flag = Inr ?arr'"
    using assms a l by (auto simp: move_snake_def hx_def hy_def)
  have s: "?arr' ! nat i = arr ! nat (i + 1)" if "0 \<le> i \<and> i \<le> L - 2" for i
  proof -
    have "nat i < length arr" "nat i \<noteq> nat (L - 1)" "nat (i + 1) = Suc (nat i)"
      using that assms(1,2) by auto
    then show ?thesis using k [of "nat i"] that by simp
  qed
  have t: "?arr' ! nat i = arr ! nat i" if "L \<le> i \<and> i < int (length arr)" for i
  proof -
    have "nat i < length arr" "nat i \<noteq> nat (L - 1)"
      using that assms(1,2) by auto
    then show ?thesis using k [of "nat i"] that by simp
  qed
  have hx': "x (?arr' ! nat (L - 1)) =
      x ?h + (if flag = 1 then 1 else if flag = 3 then - 1 else 0)"
    using assms(1,2) l by (simp add: hx_def)
  have hy': "y (?arr' ! nat (L - 1)) =
      y ?h + (if flag = 4 then 1 else if flag = 2 then - 1 else 0)"
    using assms(1,2) l by (simp add: hy_def)
  show ?thesis
  proof (intro exI conjI allI impI)
    show "move_snake arr L flag = Inr ?arr'" by (rule m)
    show "length ?arr' = length arr" using l by simp
    show "?arr' ! nat i = arr ! nat (i + 1)" if "0 \<le> i \<and> i \<le> L - 2" for i
      using that by (rule s)
    show "x (?arr' ! nat (L - 1)) =
      x ?h + (if flag = 1 then 1 else if flag = 3 then - 1 else 0)" by (rule hx')
    show "y (?arr' ! nat (L - 1)) =
      y ?h + (if flag = 4 then 1 else if flag = 2 then - 1 else 0)" by (rule hy')
    show "?arr' ! nat i = arr ! nat i" if "L \<le> i \<and> i < int (length arr)" for i
      using that by (rule t)
  qed
qed

lemma move_snake_with_free_slot_example:
  "(1::int) \<le> 2 \<and> 2 < int (length [\<lparr>x = 5, y = 5\<rparr>, \<lparr>x = 5, y = 6\<rparr>, \<lparr>x = 0, y = 0\<rparr>]) \<and>
   (4::int) \<in> {1, 2, 3, 4} \<and>
   move_snake [\<lparr>x = 5, y = 5\<rparr>, \<lparr>x = 5, y = 6\<rparr>, \<lparr>x = 0, y = 0\<rparr>] 2 4 =
     Inr [\<lparr>x = 5, y = 6\<rparr>, \<lparr>x = 5, y = 7\<rparr>, \<lparr>x = 0, y = 0\<rparr>]"
  using move_snake_with_free_slot
    [of 2 "[\<lparr>x = 5, y = 5\<rparr>, \<lparr>x = 5, y = 6\<rparr>, \<lparr>x = 0, y = 0\<rparr>]" 4]
  by (simp add: move_snake_def move_snake_loop.simps)

text \<open>
  Without the free slot the function leaves the array. The loop runs for \<open>i\<close> from 0 to
  \<open>length - 1\<close>, one pass more than the segments to shift, and on an array that the snake
  fills its last pass reads \<^verbatim>\<open>snake[length]\<close> behind the end of the array.
\<close>

lemma move_snake_loop_full_array:
  "0 \<le> i \<Longrightarrow> i < n \<Longrightarrow> int (length arr) \<le> n \<Longrightarrow> move_snake_loop i n arr = Inl OutOfBounds"
proof (induction i n arr rule: move_snake_loop.induct)
  case (1 i n arr)
  show ?case
  proof (cases "i + 1 < int (length arr)")
    case False
    then have "rd arr (i + 1) = Inl OutOfBounds"
      by (simp add: rd_def)
    then show ?thesis
      using 1(3) by (simp add: move_snake_loop.simps [of i n arr])
  next
    case True
    let ?arr1 = "arr[nat i := arr ! nat (i + 1)]"
    have r: "rd arr (i + 1) = Inr (arr ! nat (i + 1))"
      using True 1(2) by simp
    have w: "wr arr i (arr ! nat (i + 1)) = Inr ?arr1"
      using True 1(2) by simp
    have "move_snake_loop (i + 1) n ?arr1 = Inl OutOfBounds"
      using 1(1) [OF 1(3) r w] True 1(2,4) by simp
    then show ?thesis
      using 1(3) r w by (simp add: move_snake_loop.simps [of i n arr])
  qed
qed

lemma move_snake_full_array:
  assumes "1 \<le> n" and "int (length arr) \<le> n"
  shows "move_snake arr n flag = Inl OutOfBounds"
proof (cases "n - 1 < int (length arr)")
  case False
  then have "rd arr (n - 1) = Inl OutOfBounds"
    by (simp add: rd_def)
  then show ?thesis by (simp add: move_snake_def)
next
  case True
  then have "rd arr (n - 1) = Inr (arr ! nat (n - 1))"
    using assms(1) by simp
  moreover have "move_snake_loop 0 n arr = Inl OutOfBounds"
    using assms by (intro move_snake_loop_full_array) simp_all
  ultimately show ?thesis by (simp add: move_snake_def)
qed

text \<open>
  C1. A snake of length 3 on (5,5), (5,6), (5,7) in an array of 3 slots, moved to the right.
  Shifted by one slot with the head on (5,8) it would be (5,6), (5,7), (5,8). The call does
  not get there: the pass \<open>i = 2\<close> of the loop reads \<^verbatim>\<open>snake[3]\<close>, which the array does not
  have.
\<close>

theorem move_snake_full_array_out_of_bounds:
  "move_snake [\<lparr>x = 5, y = 5\<rparr>, \<lparr>x = 5, y = 6\<rparr>, \<lparr>x = 5, y = 7\<rparr>] 3 4 = Inl OutOfBounds"
  by (simp add: move_snake_def move_snake_loop.simps rd_def)

section \<open>Properties of check_collision\<close>

text \<open>
  The loop started at \<open>i\<close> returns 1 exactly if one of the segments from \<open>i\<close> to \<open>n - 2\<close>
  lies on the cell of the head.
\<close>

lemma check_collision_loop_result:
  "0 \<le> i \<Longrightarrow> n \<le> int (length arr) \<Longrightarrow>
   check_collision_loop i n arr =
     Inr (if \<exists>k. i \<le> k \<and> k < n - 1 \<and>
              x (arr ! nat (n - 1)) = x (arr ! nat k) \<and> y (arr ! nat (n - 1)) = y (arr ! nat k)
          then 1 else 0)"
proof (induction i n arr rule: check_collision_loop.induct)
  case (1 i n arr)
  let ?hit = "\<lambda>k. x (arr ! nat (n - 1)) = x (arr ! nat k) \<and> y (arr ! nat (n - 1)) = y (arr ! nat k)"
  show ?case
  proof (cases "i < n - 1")
    case False
    then show ?thesis by (simp add: check_collision_loop.simps [of i n arr])
  next
    case True
    have rh: "rd arr (n - 1) = Inr (arr ! nat (n - 1))"
      using True 1(2,3) by simp
    have ri: "rd arr i = Inr (arr ! nat i)"
      using True 1(2,3) by simp
    show ?thesis
    proof (cases "?hit i")
      case hit: True
      have "\<exists>k. i \<le> k \<and> k < n - 1 \<and> ?hit k"
        using True hit by (intro exI [of _ i]) simp
      then show ?thesis
        using True rh ri hit by (simp add: check_collision_loop.simps [of i n arr])
    next
      case miss: False
      have ih: "check_collision_loop (i + 1) n arr =
          Inr (if \<exists>k. i + 1 \<le> k \<and> k < n - 1 \<and> ?hit k then 1 else 0)"
        using 1(1) [OF True rh ri] miss 1(2,3) by simp
      have "(\<exists>k. i + 1 \<le> k \<and> k < n - 1 \<and> ?hit k) = (\<exists>k. i \<le> k \<and> k < n - 1 \<and> ?hit k)"
      proof
        assume "\<exists>k. i + 1 \<le> k \<and> k < n - 1 \<and> ?hit k"
        then obtain k where "i + 1 \<le> k \<and> k < n - 1 \<and> ?hit k" ..
        then have "i \<le> k \<and> k < n - 1 \<and> ?hit k" by simp
        then show "\<exists>k. i \<le> k \<and> k < n - 1 \<and> ?hit k" ..
      next
        assume "\<exists>k. i \<le> k \<and> k < n - 1 \<and> ?hit k"
        then obtain k where k: "i \<le> k \<and> k < n - 1 \<and> ?hit k" ..
        with miss have "k \<noteq> i" by auto
        with k have "i + 1 \<le> k \<and> k < n - 1 \<and> ?hit k" by simp
        then show "\<exists>k. i + 1 \<le> k \<and> k < n - 1 \<and> ?hit k" ..
      qed
      with ih show ?thesis
        using True rh ri miss by (simp add: check_collision_loop.simps [of i n arr])
    qed
  qed
qed

lemma return_code_cases:
  "c = Inr (if w then 2 else if s then 1 else (0::int)) \<Longrightarrow>
   (c = (Inr 2 :: error + int) \<longleftrightarrow> w) \<and> (c = Inr 1 \<longleftrightarrow> \<not> w \<and> s) \<and> (c = Inr 0 \<longleftrightarrow> \<not> w \<and> \<not> s)"
  by auto

text \<open>
  C2. For a snake of length \<open>L \<ge> 1\<close> (in the slots \<open>0 .. L - 1\<close> of the array),
  \<^verbatim>\<open>check_collision\<close> returns 2 (wall) exactly if the head's row is \<open>\<le> 0\<close> or
  \<open>\<ge> HEIGHT - 1\<close> or its column is \<open>\<le> 0\<close> or \<open>\<ge> WIDTH - 1\<close>, whether or not the head lies on
  another segment; it returns 1 (self) exactly if the head is off the wall and on the
  cell of a segment with index from 0 to \<open>L - 2\<close>; it returns 0 exactly if neither holds.
\<close>

theorem check_collision_codes:
  assumes "1 \<le> L" and "L \<le> int (length arr)"
  shows "let h = arr ! nat (L - 1);
             wall = (x h \<le> 0 \<or> x h \<ge> HEIGHT - 1 \<or> y h \<le> 0 \<or> y h \<ge> WIDTH - 1);
             self = (\<exists>i. 0 \<le> i \<and> i \<le> L - 2 \<and> x (arr ! nat i) = x h \<and> y (arr ! nat i) = y h)
         in (check_collision WIDTH HEIGHT arr L = Inr 2 \<longleftrightarrow> wall) \<and>
            (check_collision WIDTH HEIGHT arr L = Inr 1 \<longleftrightarrow> \<not> wall \<and> self) \<and>
            (check_collision WIDTH HEIGHT arr L = Inr 0 \<longleftrightarrow> \<not> wall \<and> \<not> self)"
proof -
  let ?h = "arr ! nat (L - 1)"
  let ?wall = "x ?h \<le> 0 \<or> x ?h \<ge> HEIGHT - 1 \<or> y ?h \<le> 0 \<or> y ?h \<ge> WIDTH - 1"
  let ?self = "\<exists>i. 0 \<le> i \<and> i \<le> L - 2 \<and> x (arr ! nat i) = x ?h \<and> y (arr ! nat i) = y ?h"
  have rh: "rd arr (L - 1) = Inr ?h"
    using assms by simp
  have se: "(\<exists>k. 0 \<le> k \<and> k < L - 1 \<and> x ?h = x (arr ! nat k) \<and> y ?h = y (arr ! nat k)) = ?self"
    by (rule arg_cong [where f = Ex]) auto
  have "check_collision WIDTH HEIGHT arr L = Inr (if ?wall then 2 else if ?self then 1 else 0)"
    using rh check_collision_loop_result [of 0 L arr] assms(2) se
    by (simp add: check_collision_def)
  then show ?thesis
    unfolding Let_def by (rule return_code_cases)
qed

theorem check_collision_codes_witness:
  "let arr = [\<lparr>x = 5, y = 5\<rparr>, \<lparr>x = 5, y = 6\<rparr>, \<lparr>x = 6, y = 6\<rparr>, \<lparr>x = 6, y = 5\<rparr>, \<lparr>x = 5, y = 5\<rparr>,
                \<lparr>x = 0, y = 0\<rparr>]
   in (1::int) \<le> 5 \<and> 5 \<le> int (length arr) \<and> check_collision 20 20 arr 5 = Inr 1"
  using check_collision_codes
    [of 5 "[\<lparr>x = 5, y = 5\<rparr>, \<lparr>x = 5, y = 6\<rparr>, \<lparr>x = 6, y = 6\<rparr>, \<lparr>x = 6, y = 5\<rparr>, \<lparr>x = 5, y = 5\<rparr>,
             \<lparr>x = 0, y = 0\<rparr>]" 20 20]
  by (simp add: check_collision_def check_collision_loop.simps)

section \<open>Properties of fruits and grow_snake\<close>

text \<open>
  On a board with \<open>WIDTH \<noteq> 2\<close> and \<open>HEIGHT \<noteq> 2\<close> the two remainders are defined. With
  \<open>WIDTH > 2\<close> and \<open>HEIGHT > 2\<close> the fruit's \<^verbatim>\<open>x\<close> is between 1 and \<open>WIDTH - 2\<close> and its \<^verbatim>\<open>y\<close>
  between 1 and \<open>HEIGHT - 2\<close>.
\<close>

lemma fruits_ok:
  "WIDTH \<noteq> 2 \<Longrightarrow> HEIGHT \<noteq> 2 \<Longrightarrow>
   fruits WIDTH HEIGHT r1 r2 =
     Inr (int r1 mod \<bar>WIDTH - 2\<bar> + 1, int r2 mod \<bar>HEIGHT - 2\<bar> + 1)"
  by (simp add: fruits_def c_mod_def sgn_if)

lemma fruits_interior:
  "2 < WIDTH \<Longrightarrow> 2 < HEIGHT \<Longrightarrow> fruits WIDTH HEIGHT r1 r2 = Inr (fx, fy) \<Longrightarrow>
   1 \<le> fx \<and> fx \<le> WIDTH - 2 \<and> 1 \<le> fy \<and> fy \<le> HEIGHT - 2"
proof -
  assume w: "2 < WIDTH" and h: "2 < HEIGHT" and f: "fruits WIDTH HEIGHT r1 r2 = Inr (fx, fy)"
  have "fx = int r1 mod (WIDTH - 2) + 1" "fy = int r2 mod (HEIGHT - 2) + 1"
    using w h f by (simp_all add: fruits_ok)
  moreover have "0 \<le> int r1 mod (WIDTH - 2)" "int r1 mod (WIDTH - 2) < WIDTH - 2"
    using w by simp_all
  moreover have "0 \<le> int r2 mod (HEIGHT - 2)" "int r2 mod (HEIGHT - 2) < HEIGHT - 2"
    using h by simp_all
  ultimately show ?thesis by simp
qed

text \<open>
  On the board of width 20 and height 10 a draw of 17 puts the fruit on row 18, which
  \<^verbatim>\<open>check_collision\<close> counts as wall from row 9 on: the remainders follow \<open>WIDTH\<close> for the row
  and \<open>HEIGHT\<close> for the column.
\<close>

lemma fruits_20x10_row_18: "fruits 20 10 17 0 = Inr (18, 1)"
  by (simp add: fruits_def c_mod_def)

text \<open>
  The loop started at \<open>i\<close> copies every slot from \<open>i\<close> down to 1 from its left neighbour;
  its first pass writes slot \<open>i\<close>, so that slot has to exist.
\<close>

lemma grow_snake_loop_shifts:
  "0 \<le> i \<Longrightarrow> i < int (length arr) \<Longrightarrow>
   \<exists>arr'. grow_snake_loop i arr = Inr arr' \<and> length arr' = length arr \<and>
     (\<forall>k < length arr. arr' ! k = (if 1 \<le> k \<and> int k \<le> i then arr ! (k - 1) else arr ! k))"
proof (induction i arr rule: grow_snake_loop.induct)
  case (1 i arr)
  show ?case
  proof (cases "i > 0")
    case False
    then have "i = 0" using 1(2) by simp
    then show ?thesis by (simp add: grow_snake_loop.simps [of 0 arr])
  next
    case True
    let ?arr1 = "arr[nat i := arr ! nat (i - 1)]"
    have r: "rd arr (i - 1) = Inr (arr ! nat (i - 1))"
      using True 1(2,3) by simp
    have w: "wr arr i (arr ! nat (i - 1)) = Inr ?arr1"
      using True 1(2,3) by simp
    have "\<exists>arr'. grow_snake_loop (i - 1) ?arr1 = Inr arr' \<and> length arr' = length ?arr1 \<and>
      (\<forall>k < length ?arr1. arr' ! k = (if 1 \<le> k \<and> int k \<le> i - 1 then ?arr1 ! (k - 1) else ?arr1 ! k))"
      using 1(1) [OF True r w] True 1(2,3) by simp
    then obtain arr' where a: "grow_snake_loop (i - 1) ?arr1 = Inr arr'"
      and l: "length arr' = length arr"
      and k: "\<And>k. k < length arr \<Longrightarrow>
        arr' ! k = (if 1 \<le> k \<and> int k \<le> i - 1 then ?arr1 ! (k - 1) else ?arr1 ! k)"
      by auto
    have step: "grow_snake_loop i arr = Inr arr'"
      using True r w a by (simp add: grow_snake_loop.simps [of i arr])
    have "arr' ! k = (if 1 \<le> k \<and> int k \<le> i then arr ! (k - 1) else arr ! k)"
      if "k < length arr" for k
    proof -
      have ni: "nat (i - 1) = nat i - 1" using True by simp
      show ?thesis
        using k [OF that] that 1(2,3) True
        by (auto simp: nth_list_update ni)
    qed
    with step l show ?thesis by blast
  qed
qed

text \<open>
  The whole of \<^verbatim>\<open>grow_snake\<close>, for a snake that leaves a slot of the array free. Slot 0
  keeps its content: it is saved in \<^verbatim>\<open>old\<close> before the loop and written back after it.
\<close>

lemma grow_snake_result:
  assumes "0 \<le> len g" and "len g < int (length (snake g))"
    and "fruits WIDTH HEIGHT r1 r2 = Inr (fx, fy)"
  shows "\<exists>arr'. grow_snake WIDTH HEIGHT g r1 r2 =
      Inr (g\<lparr>snake := arr', len := len g + 1, score := score g + 5, fruitx := fx, fruity := fy\<rparr>) \<and>
    length arr' = length (snake g) \<and>
    (\<forall>k < length (snake g).
       arr' ! k = (if 1 \<le> k \<and> int k \<le> len g then snake g ! (k - 1) else snake g ! k))"
proof -
  obtain arr1 where a: "grow_snake_loop (len g) (snake g) = Inr arr1"
    and l: "length arr1 = length (snake g)"
    and k: "\<And>k. k < length (snake g) \<Longrightarrow>
      arr1 ! k = (if 1 \<le> k \<and> int k \<le> len g then snake g ! (k - 1) else snake g ! k)"
    using grow_snake_loop_shifts [OF assms(1,2)] by auto
  have pos: "0 < length (snake g)"
    using assms(1,2) by (cases "snake g") auto
  have "arr1 ! 0 = snake g ! 0"
    using k [OF pos] by simp
  then have same: "arr1[0 := snake g ! 0] = arr1"
    by (metis list_update_id)
  have "grow_snake WIDTH HEIGHT g r1 r2 =
      Inr (g\<lparr>snake := arr1, len := len g + 1, score := score g + 5, fruitx := fx, fruity := fy\<rparr>)"
    using a l pos assms(3) same by (simp add: grow_snake_def)
  with l k show ?thesis by blast
qed

text \<open>
  C3, as stated, fails: \<^verbatim>\<open>fruits\<close> draws the new fruit without looking at the snake. Here
  the snake lies on (5,5) and (5,6), its head on the fruit at (5,6); \<^verbatim>\<open>rand()\<close> returns 4
  twice, and the new fruit is put on (5,5), the cell of the segments 0 and 1 of the grown
  snake.
\<close>

theorem grow_snake_fruit_on_snake:
  "grow_snake 20 20
     \<lparr>snake = [\<lparr>x = 5, y = 5\<rparr>, \<lparr>x = 5, y = 6\<rparr>, \<lparr>x = 0, y = 0\<rparr>], len = 2, gameover = 0,
      score = 0, fruitx = 5, fruity = 6\<rparr> 4 4 =
   Inr \<lparr>snake = [\<lparr>x = 5, y = 5\<rparr>, \<lparr>x = 5, y = 5\<rparr>, \<lparr>x = 5, y = 6\<rparr>], len = 3, gameover = 0,
        score = 5, fruitx = 5, fruity = 5\<rparr>"
  by (simp add: grow_snake_def grow_snake_loop.simps fruits_def c_mod_def)

text \<open>
  C3, amended. For every call of \<^verbatim>\<open>grow_snake\<close> on a board with \<open>WIDTH > 2\<close> and
  \<open>HEIGHT > 2\<close> and a snake that leaves a slot of the array free, the length grows by exactly
  1 and the score by exactly 5; on a square board the new fruit lies strictly inside the
  border, its row in \<open>[1, HEIGHT - 2]\<close> and its column in \<open>[1, WIDTH - 2]\<close>. Nothing keeps the
  fruit off the snake. (\<^verbatim>\<open>fruits\<close> takes the row \<^verbatim>\<open>x\<close> modulo \<open>WIDTH - 2\<close> and the column \<^verbatim>\<open>y\<close>
  modulo \<open>HEIGHT - 2\<close>, while \<^verbatim>\<open>check_collision\<close> bounds the row by \<open>HEIGHT\<close> and the column
  by \<open>WIDTH\<close>; the two agree on square boards.)
\<close>

theorem grow_snake_length_score_fruit:
  assumes "0 \<le> len g" and "len g < int (length (snake g))" and "2 < WIDTH" and "2 < HEIGHT"
  shows "\<exists>g'. grow_snake WIDTH HEIGHT g r1 r2 = Inr g' \<and>
    len g' = len g + 1 \<and> score g' = score g + 5 \<and>
    (WIDTH = HEIGHT \<longrightarrow>
       1 \<le> fruitx g' \<and> fruitx g' \<le> HEIGHT - 2 \<and> 1 \<le> fruity g' \<and> fruity g' \<le> WIDTH - 2)"
proof -
  obtain fx fy where f: "fruits WIDTH HEIGHT r1 r2 = Inr (fx, fy)"
    using assms(3,4) by (simp add: fruits_ok)
  have b: "1 \<le> fx \<and> fx \<le> WIDTH - 2 \<and> 1 \<le> fy \<and> fy \<le> HEIGHT - 2"
    using assms(3,4) f by (rule fruits_interior)
  obtain arr' where "grow_snake WIDTH HEIGHT g r1 r2 =
      Inr (g\<lparr>snake := arr', len := len g + 1, score := score g + 5, fruitx := fx, fruity := fy\<rparr>)"
    using grow_snake_result [OF assms(1,2) f] by blast
  with b show ?thesis by simp
qed

theorem grow_snake_length_score_fruit_witness:
  "let g = \<lparr>snake = [\<lparr>x = 5, y = 5\<rparr>, \<lparr>x = 5, y = 6\<rparr>, \<lparr>x = 0, y = 0\<rparr>], len = 2, gameover = 0,
            score = 0, fruitx = 5, fruity = 6\<rparr>
   in 0 \<le> len g \<and> len g < int (length (snake g)) \<and> (2::int) < 20 \<and>
      (\<exists>g'. grow_snake 20 20 g 7 30 = Inr g' \<and> len g' = 3 \<and> score g' = 5 \<and>
         fruitx g' = 8 \<and> fruity g' = 13)"
  using grow_snake_length_score_fruit
    [of "\<lparr>snake = [\<lparr>x = 5, y = 5\<rparr>, \<lparr>x = 5, y = 6\<rparr>, \<lparr>x = 0, y = 0\<rparr>], len = 2, gameover = 0,
          score = 0, fruitx = 5, fruity = 6\<rparr>" 20 20 7 30]
  by (simp add: grow_snake_def grow_snake_loop.simps fruits_def c_mod_def)




section \<open>Properties of logic\<close>

text \<open>
  With room in the array for the slot behind the head, \<^verbatim>\<open>move_snake\<close> and
  \<^verbatim>\<open>check_collision\<close> stay inside the array, whatever the flag.
\<close>

lemma move_snake_defined:
  assumes "1 \<le> n" and "n < int (length arr)"
  shows "\<exists>arr1. move_snake arr n flag = Inr arr1 \<and> length arr1 = length arr"
proof -
  obtain arr1 where a: "move_snake_loop 0 n arr = Inr arr1" and l: "length arr1 = length arr"
    using move_snake_loop_shifts [of 0 n arr] assms(2) by auto
  show ?thesis
    using assms a l by (auto simp: move_snake_def)
qed

lemma check_collision_defined:
  assumes "1 \<le> n" and "n \<le> int (length arr)"
  shows "\<exists>c. check_collision WIDTH HEIGHT arr n = Inr c"
  using assms check_collision_loop_result [of 0 n arr]
  by (simp add: check_collision_def)

text \<open>
  C4. In a call of \<^verbatim>\<open>logic\<close> that moves the snake (flag not 0) without a collision, the
  score after the call is the old score, plus 5 if the moved head lies on the fruit, and
  \<^verbatim>\<open>gameover\<close> is set to \<open>-1\<close> exactly if that score, taken after the growth, equals 100;
  otherwise \<^verbatim>\<open>gameover\<close> is 0, also for a score above 100.
\<close>

theorem logic_win_check:
  assumes "flag \<noteq> 0" and "1 \<le> len g" and "len g < int (length (snake g))"
    and "WIDTH \<noteq> 2" and "HEIGHT \<noteq> 2"
    and "move_snake (snake g) (len g) flag = Inr arr1"
    and "check_collision WIDTH HEIGHT arr1 (len g) = Inr 0"
  shows "\<exists>g'. snd (logic WIDTH HEIGHT flag g r1 r2) = Inr g' \<and>
    score g' = (if x (arr1 ! nat (len g - 1)) = fruitx g \<and> y (arr1 ! nat (len g - 1)) = fruity g
                then score g + 5 else score g) \<and>
    gameover g' = (if score g' = 100 then - 1 else 0)"
proof -
  let ?g1 = "g\<lparr>snake := arr1, gameover := 0\<rparr>"
  let ?h = "arr1 ! nat (len g - 1)"
  have l1: "length arr1 = length (snake g)"
    using move_snake_defined [OF assms(2,3), of flag] assms(6) by simp
  have rh: "rd arr1 (len g - 1) = Inr ?h"
    using assms(2,3) l1 by simp
  show ?thesis
  proof (cases "x ?h = fruitx g \<and> y ?h = fruity g")
    case False
    then have "snd (logic WIDTH HEIGHT flag g r1 r2) =
        Inr (if score ?g1 = 100 then ?g1\<lparr>gameover := - 1\<rparr> else ?g1)"
      using assms(1,6,7) rh by (simp add: logic_def Let_def False)
    then show ?thesis using False by auto
  next
    case True
    obtain fx fy where f: "fruits WIDTH HEIGHT r1 r2 = Inr (fx, fy)"
      using assms(4,5) by (simp add: fruits_ok)
    have "0 \<le> len ?g1" "len ?g1 < int (length (snake ?g1))"
      using assms(2,3) l1 by simp_all
    from grow_snake_result [OF this f]
    obtain arr' where gr: "grow_snake WIDTH HEIGHT ?g1 r1 r2 =
        Inr (?g1\<lparr>snake := arr', len := len ?g1 + 1, score := score ?g1 + 5,
                 fruitx := fx, fruity := fy\<rparr>)"
      by blast
    let ?g2 = "?g1\<lparr>snake := arr', len := len ?g1 + 1, score := score ?g1 + 5,
                 fruitx := fx, fruity := fy\<rparr>"
    have "snd (logic WIDTH HEIGHT flag g r1 r2) =
        Inr (if score ?g2 = 100 then ?g2\<lparr>gameover := - 1\<rparr> else ?g2)"
      using assms(1,6,7) rh True gr by (simp add: logic_def Let_def)
    then show ?thesis using True by auto
  qed
qed

theorem logic_win_check_witness:
  "let g = \<lparr>snake = [\<lparr>x = 5, y = 5\<rparr>, \<lparr>x = 0, y = 0\<rparr>], len = 1, gameover = 0,
            score = 95, fruitx = 5, fruity = 6\<rparr>
   in (4::int) \<noteq> 0 \<and> 1 \<le> len g \<and> len g < int (length (snake g)) \<and> (20::int) \<noteq> 2 \<and>
      move_snake (snake g) (len g) 4 = Inr [\<lparr>x = 5, y = 6\<rparr>, \<lparr>x = 0, y = 0\<rparr>] \<and>
      check_collision 20 20 [\<lparr>x = 5, y = 6\<rparr>, \<lparr>x = 0, y = 0\<rparr>] (len g) = Inr 0 \<and>
      (\<exists>g'. snd (logic 20 20 4 g 3 3) = Inr g' \<and> score g' = 100 \<and> gameover g' = - 1)"
  using logic_win_check
    [of 4 "\<lparr>snake = [\<lparr>x = 5, y = 5\<rparr>, \<lparr>x = 0, y = 0\<rparr>], len = 1, gameover = 0,
            score = 95, fruitx = 5, fruity = 6\<rparr>" 20 20 "[\<lparr>x = 5, y = 6\<rparr>, \<lparr>x = 0, y = 0\<rparr>]" 3 3]
  by (auto simp: move_snake_def move_snake_loop.simps check_collision_def
      check_collision_loop.simps)

text \<open>
  C9. A call of \<^verbatim>\<open>logic\<close> with direction flag 0 (no key pressed yet) returns right after the
  sleep: it moves nothing and checks no collision, so the snake's segments, the length,
  \<^verbatim>\<open>gameover\<close>, the score and the fruit are all as before.
\<close>

theorem logic_flag_zero_noop:
  "snd (logic WIDTH HEIGHT 0 g r1 r2) = Inr g"
  by (simp add: logic_def)

text \<open>The interval has two values only: 200 ms from 25 points on, 250 ms below.\<close>

lemma tv_nsec_two_steps: "tv_nsec sc = (if 25 \<le> sc then 200000000 else 250000000)"
  by (simp add: tv_nsec_def)

text \<open>
  C6. The sleep interval at a score of 80. The tests \<^verbatim>\<open>score >= 50\<close> and \<^verbatim>\<open>score >= 75\<close> sit
  in the \<^verbatim>\<open>else\<close> branch of \<^verbatim>\<open>score >= 25\<close>, so they are never reached with a score that
  satisfies them: the interval at 80 is 200 ms, not 100 ms.
\<close>

theorem logic_sleep_at_80:
  "fst (logic WIDTH HEIGHT flag (g\<lparr>score := 80\<rparr>) r1 r2) = 200000000"
  by (simp add: logic_def tv_nsec_def)

section \<open>Properties of input\<close>

text \<open>
  C7. An arrow key arrives as the bytes 27, 91 and 65 (up), 66 (down), 67 (right) or
  68 (left). Whatever the flag is, \<^verbatim>\<open>input\<close> sets it to the requested direction (3 up,
  1 down, 4 right, 2 left) exactly if the flag is not the opposite direction (1, 3, 2 and
  4), and leaves it as it is otherwise. With no byte pending \<^verbatim>\<open>getchar\<close> returns \<^verbatim>\<open>EOF\<close> and
  the flag is left as it is.
\<close>

theorem input_rejects_reversal:
  "input flag (27 # 91 # 65 # rest) = (if flag \<noteq> 1 then 3 else flag, rest) \<and>
   input flag (27 # 91 # 66 # rest) = (if flag \<noteq> 3 then 1 else flag, rest) \<and>
   input flag (27 # 91 # 67 # rest) = (if flag \<noteq> 2 then 4 else flag, rest) \<and>
   input flag (27 # 91 # 68 # rest) = (if flag \<noteq> 4 then 2 else flag, rest) \<and>
   input flag [] = (flag, [])"
  by (simp add: input_def getchar_def)

section \<open>Properties of main\<close>

text \<open>
  The variables when the loop is entered, for an array of at least one slot, and the first
  pass of the loop on the board of width 20 and height 10 when the right arrow is pressed.
\<close>

lemma init_game_result:
  assumes "1 \<le> LENGTH_SNAKE" and "fruits WIDTH HEIGHT r1 r2 = Inr (fx, fy)"
    and "0 \<le> WIDTH" and "0 \<le> HEIGHT"
  shows "init_game WIDTH HEIGHT LENGTH_SNAKE r1 r2 =
    Inr \<lparr>snake = (replicate LENGTH_SNAKE \<lparr>x = 0, y = 0\<rparr>)[0 := \<lparr>x = WIDTH div 2, y = HEIGHT div 2\<rparr>],
         len = 1, gameover = 0, score = 0, fruitx = fx, fruity = fy\<rparr>"
proof -
  have "c_div WIDTH 2 = Inr (WIDTH div 2)" "c_div HEIGHT 2 = Inr (HEIGHT div 2)"
    using assms(3,4) by (simp_all add: c_div_def sgn_if)
  then show ?thesis
    using assms(1,2) by (simp add: init_game_def Let_def)
qed

lemma main_20x10_first_pass:
  assumes "2 \<le> LENGTH_SNAKE"
  shows "\<exists>g arr'. init_game 20 10 LENGTH_SNAKE r1 r2 = Inr g \<and>
    len g = 1 \<and> score g = 0 \<and> gameover g = 0 \<and> snake g ! 0 = \<lparr>x = 10, y = 5\<rparr> \<and>
    main 20 10 LENGTH_SNAKE r1 r2 [([27, 91, 67], r3, r4)] =
      Inr (4, g\<lparr>snake := arr', gameover := 2\<rparr>) \<and>
    arr' ! 0 = \<lparr>x = 10, y = 6\<rparr>"
proof -
  let ?z = "\<lparr>x = 0, y = 0\<rparr>"
  let ?arr = "(replicate LENGTH_SNAKE ?z)[0 := \<lparr>x = 10, y = 5\<rparr>]"
  let ?arr' = "(replicate LENGTH_SNAKE ?z)[0 := \<lparr>x = 10, y = 6\<rparr>]"
  let ?g = "\<lparr>snake = ?arr, len = 1, gameover = 0, score = 0,
             fruitx = int r1 mod 18 + 1, fruity = int r2 mod 8 + 1\<rparr>"
  have f: "fruits 20 10 r1 r2 = Inr (int r1 mod 18 + 1, int r2 mod 8 + 1)"
    by (simp add: fruits_ok)
  have i: "init_game 20 10 LENGTH_SNAKE r1 r2 = Inr ?g"
    using assms init_game_result [OF _ f] by simp
  have h0: "?arr ! 0 = \<lparr>x = 10, y = 5\<rparr>" and h1: "?arr' ! 0 = \<lparr>x = 10, y = 6\<rparr>"
    using assms by simp_all
  have "move_snake_loop 0 1 ?arr = Inr (replicate LENGTH_SNAKE ?z)"
    using assms by (simp add: move_snake_loop.simps [of _ 1] list_update_same_conv)
  then have m: "move_snake ?arr 1 4 = Inr ?arr'"
    using assms by (simp add: move_snake_def)
  have c: "check_collision 20 10 ?arr' 1 = Inr 2"
    using assms by (simp add: check_collision_def)
  have "snd (logic 20 10 4 ?g r3 r4) = Inr (?g\<lparr>snake := ?arr', gameover := 2\<rparr>)"
    using m c by (simp add: logic_def)
  then have "main 20 10 LENGTH_SNAKE r1 r2 [([27, 91, 67], r3, r4)] =
      Inr (4, ?g\<lparr>snake := ?arr', gameover := 2\<rparr>)"
    using i by (simp add: main_def input_def getchar_def)
  with i h0 h1 show ?thesis
    by (intro exI [of _ ?g] exI [of _ ?arr']) simp
qed

text \<open>
  On a square board of side 3 or more the start, \<^verbatim>\<open>(WIDTH / 2, HEIGHT / 2)\<close>, is a cell
  inside the border: \<^verbatim>\<open>check_collision\<close> returns 0 on it.
\<close>

lemma init_game_square_center:
  assumes "1 \<le> LENGTH_SNAKE" and "3 \<le> N"
  shows "\<exists>g. init_game N N LENGTH_SNAKE r1 r2 = Inr g \<and> len g = 1 \<and> score g = 0 \<and>
    snake g ! 0 = \<lparr>x = N div 2, y = N div 2\<rparr> \<and>
    check_collision N N (snake g) (len g) = Inr 0"
proof -
  obtain fx fy where f: "fruits N N r1 r2 = Inr (fx, fy)"
    using assms(2) by (simp add: fruits_ok)
  let ?arr = "(replicate LENGTH_SNAKE \<lparr>x = 0, y = 0\<rparr>)[0 := \<lparr>x = N div 2, y = N div 2\<rparr>]"
  have i: "init_game N N LENGTH_SNAKE r1 r2 =
      Inr \<lparr>snake = ?arr, len = 1, gameover = 0, score = 0, fruitx = fx, fruity = fy\<rparr>"
    using init_game_result [OF assms(1) f] assms(2) by simp
  have h: "?arr ! 0 = \<lparr>x = N div 2, y = N div 2\<rparr>"
    using assms(1) by simp
  have "rd ?arr 0 = Inr (?arr ! 0)"
    using assms(1) by simp
  moreover have "0 < N div 2" "N div 2 < N - 1"
    using assms(2) by presburger+
  ultimately have "check_collision N N ?arr 1 = Inr 0"
    using h by (simp add: check_collision_def check_collision_loop.simps)
  with i h show ?thesis by simp
qed

text \<open>
  C8. The start on a board that is not square, with an array of 3 slots and all draws 0.
  \<^verbatim>\<open>main\<close> sets the row \<^verbatim>\<open>x\<close> to \<open>WIDTH / 2\<close> and the column \<^verbatim>\<open>y\<close> to \<open>HEIGHT / 2\<close>, while
  \<^verbatim>\<open>check_collision\<close> bounds the row by \<open>HEIGHT\<close> and the column by \<open>WIDTH\<close>. With
  \<open>WIDTH = 20\<close> and \<open>HEIGHT = 10\<close> the snake of length 1 starts on (10,5), score 0. That
  cell is not the centre of the 10 rows and 20 columns, it lies below the last row:
  \<^verbatim>\<open>check_collision\<close> returns 2 on it, and the first pass with the right arrow moves the
  head to (10,6) and ends the game with the code 2. With \<open>WIDTH = 10\<close> and \<open>HEIGHT = 20\<close>,
  20 rows and 10 columns, whose centre is (10,5), the start is (5,10), behind the last
  column.
\<close>

theorem main_start_20x10_off_center:
  "init_game 20 10 3 0 0 =
     Inr \<lparr>snake = [\<lparr>x = 10, y = 5\<rparr>, \<lparr>x = 0, y = 0\<rparr>, \<lparr>x = 0, y = 0\<rparr>], len = 1, gameover = 0,
          score = 0, fruitx = 1, fruity = 1\<rparr> \<and>
   check_collision 20 10 [\<lparr>x = 10, y = 5\<rparr>, \<lparr>x = 0, y = 0\<rparr>, \<lparr>x = 0, y = 0\<rparr>] 1 = Inr 2 \<and>
   main 20 10 3 0 0 [([27, 91, 67], 0, 0)] =
     Inr (4, \<lparr>snake = [\<lparr>x = 10, y = 6\<rparr>, \<lparr>x = 0, y = 0\<rparr>, \<lparr>x = 0, y = 0\<rparr>], len = 1, gameover = 2,
              score = 0, fruitx = 1, fruity = 1\<rparr>) \<and>
   init_game 10 20 3 0 0 =
     Inr \<lparr>snake = [\<lparr>x = 5, y = 10\<rparr>, \<lparr>x = 0, y = 0\<rparr>, \<lparr>x = 0, y = 0\<rparr>], len = 1, gameover = 0,
          score = 0, fruitx = 1, fruity = 1\<rparr> \<and>
   check_collision 10 20 [\<lparr>x = 5, y = 10\<rparr>, \<lparr>x = 0, y = 0\<rparr>, \<lparr>x = 0, y = 0\<rparr>] 1 = Inr 2"
  by (simp add: main_def init_game_def fruits_def c_mod_def c_div_def input_def getchar_def
      logic_def move_snake_def move_snake_loop.simps check_collision_def numeral_3_eq_3)

text \<open>
  The same for every size of the array and every draw: with \<open>WIDTH = 20\<close> and
  \<open>HEIGHT = 10\<close> the first pass with the right arrow ends the game with the code 2.
\<close>

lemma first_move_20x10_hits_wall:
  assumes "2 \<le> LENGTH_SNAKE"
  shows "\<exists>g'. main 20 10 LENGTH_SNAKE r1 r2 [([27, 91, 67], r3, r4)] = Inr (4, g') \<and>
    gameover g' = 2"
  using main_20x10_first_pass [OF assms, of r1 r2 r3 r4] by auto

section \<open>The score in the states that the loop reaches\<close>

text \<open>
  A call of \<^verbatim>\<open>logic\<close> keeps the score or adds 5 to it, and a score that becomes 100 sets
  \<^verbatim>\<open>gameover\<close> to \<open>-1\<close>; so the invariant passes from one test of the loop to the next.
\<close>

lemma grow_snake_score:
  "grow_snake WIDTH HEIGHT g r1 r2 = Inr g' \<Longrightarrow> score g' = score g + 5 \<and> gameover g' = gameover g"
  by (auto simp: grow_snake_def ebind_eq_Inr)

lemma logic_score_step:
  assumes "snd (logic WIDTH HEIGHT flag g r1 r2) = Inr g'" and "score g \<noteq> 100"
  shows "(score g' = score g \<or> score g' = score g + 5) \<and> (score g' = 100 \<longrightarrow> gameover g' = - 1)"
proof (cases "flag = 0")
  case True
  then show ?thesis using assms by (simp add: logic_def)
next
  case False
  then obtain arr1 c where r: "(let g1 = g\<lparr>snake := arr1, gameover := c\<rparr> in
      if gameover g1 \<noteq> 0 then Inr g1
      else ebind (rd (snake g1) (len g1 - 1)) (\<lambda>h.
           ebind (if x h = fruitx g1 \<and> y h = fruity g1
                  then grow_snake WIDTH HEIGHT g1 r1 r2 else Inr g1) (\<lambda>g2.
             Inr (if score g2 = 100 then g2\<lparr>gameover := - 1\<rparr> else g2)))) = Inr g'"
    using assms(1) by (auto simp: logic_def ebind_eq_Inr)
  let ?g1 = "g\<lparr>snake := arr1, gameover := c\<rparr>"
  show ?thesis
  proof (cases "c = 0")
    case False
    then have "g' = ?g1" using r by (simp add: Let_def)
    then show ?thesis using assms(2) by simp
  next
    case True
    let ?g0 = "g\<lparr>snake := arr1, gameover := 0\<rparr>"
    have "ebind (rd arr1 (len g - 1)) (\<lambda>h.
          ebind (if x h = fruitx g \<and> y h = fruity g
                 then grow_snake WIDTH HEIGHT ?g0 r1 r2 else Inr ?g0) (\<lambda>g2.
            Inr (if score g2 = 100 then g2\<lparr>gameover := - 1\<rparr> else g2))) = Inr g'"
      using r unfolding True by (simp add: Let_def)
    then obtain h :: Point where "ebind (if x h = fruitx g \<and> y h = fruity g
                 then grow_snake WIDTH HEIGHT ?g0 r1 r2 else Inr ?g0) (\<lambda>g2.
            Inr (if score g2 = 100 then g2\<lparr>gameover := - 1\<rparr> else g2)) = Inr g'"
      unfolding ebind_eq_Inr [of "rd arr1 (len g - 1)"] by blast
    then obtain g2 where g2: "(if x h = fruitx g \<and> y h = fruity g
                 then grow_snake WIDTH HEIGHT ?g0 r1 r2 else Inr ?g0) = Inr g2"
      and g': "g' = (if score g2 = 100 then g2\<lparr>gameover := - 1\<rparr> else g2)"
      unfolding ebind_eq_Inr by auto
    have "score g2 = score g \<or> score g2 = score g + 5"
    proof (cases "x h = fruitx g \<and> y h = fruity g")
      case True
      then have "grow_snake WIDTH HEIGHT ?g0 r1 r2 = Inr g2" using g2 by simp
      then show ?thesis using grow_snake_score [of WIDTH HEIGHT ?g0 r1 r2 g2] by simp
    next
      case False
      then have "g2 = ?g0" using g2 by (simp add: False)
      then show ?thesis by simp
    qed
    then show ?thesis using g' by auto
  qed
qed

lemma logic_score_inv:
  assumes "snd (logic WIDTH HEIGHT flag g r1 r2) = Inr g'" and "score_inv g" and "gameover g = 0"
  shows "score_inv g'"
proof -
  have n: "score g \<noteq> 100"
    using assms(2,3) by (auto simp: score_inv_def)
  have d: "5 dvd score g" and b: "0 \<le> score g" "score g \<le> 100"
    using assms(2) by (simp_all add: score_inv_def)
  from d n b have le: "score g \<le> 95"
    by presburger
  have s: "(score g' = score g \<or> score g' = score g + 5) \<and> (score g' = 100 \<longrightarrow> gameover g' = - 1)"
    using logic_score_step [OF assms(1) n] .
  then show ?thesis
    using d b le unfolding score_inv_def by auto
qed

lemma main_loop_score_inv:
  "main_loop WIDTH HEIGHT passes flag pending g = Inr (flag', g') \<Longrightarrow> score_inv g \<Longrightarrow> score_inv g'"
proof (induction passes arbitrary: flag pending g)
  case Nil
  then show ?case by simp
next
  case (Cons p passes)
  obtain arrived r1 r2 where p: "p = (arrived, r1, r2)"
    by (cases p) auto
  show ?case
  proof (cases "gameover g = 0")
    case False
    then show ?thesis using Cons.prems p by simp
  next
    case True
    obtain f1 pending1 where i: "input flag (pending @ arrived) = (f1, pending1)"
      by (cases "input flag (pending @ arrived)") auto
    show ?thesis
    proof (cases "f1 = - 1")
      case True
      then show ?thesis using Cons.prems p i \<open>gameover g = 0\<close> by simp
    next
      case False
      then obtain g1 where l: "snd (logic WIDTH HEIGHT f1 g r1 r2) = Inr g1"
        and m: "main_loop WIDTH HEIGHT passes f1 pending1 g1 = Inr (flag', g')"
        using Cons.prems(1) p i \<open>gameover g = 0\<close> by (auto simp: ebind_eq_Inr)
      have "score_inv g1"
        using logic_score_inv [OF l Cons.prems(2) \<open>gameover g = 0\<close>] .
      then show ?thesis
        using Cons.IH [OF m] by simp
    qed
  qed
qed

lemma init_game_score_inv:
  "init_game WIDTH HEIGHT LENGTH_SNAKE r1 r2 = Inr g \<Longrightarrow> score_inv g"
  by (auto simp: init_game_def Let_def ebind_eq_Inr score_inv_def)

text \<open>
  C10. In every state that the loop of \<^verbatim>\<open>main\<close> reaches from the start, whatever the
  keys pressed and the numbers drawn, the score is a multiple of 5, at least 0 and at most
  100. So the test \<^verbatim>\<open>score == 100\<close> holds exactly when \<open>score \<ge> 100\<close> holds: the score
  cannot step over 100. A score of 100 comes with the won state.
\<close>

theorem main_score_multiple_of_5_up_to_100:
  assumes "main WIDTH HEIGHT LENGTH_SNAKE r1 r2 passes = Inr (flag, g)"
  shows "0 \<le> score g \<and> score g \<le> 100 \<and> 5 dvd score g \<and>
    (score g = 100 \<longleftrightarrow> score g \<ge> 100) \<and> (score g = 100 \<longrightarrow> gameover g = - 1)"
proof -
  obtain g0 where i: "init_game WIDTH HEIGHT LENGTH_SNAKE r1 r2 = Inr g0"
    and m: "main_loop WIDTH HEIGHT passes 0 [] g0 = Inr (flag, g)"
    using assms by (auto simp: main_def ebind_eq_Inr)
  have "score_inv g"
    using main_loop_score_inv [OF m init_game_score_inv [OF i]] .
  then show ?thesis
    by (auto simp: score_inv_def)
qed

theorem main_score_multiple_of_5_up_to_100_witness:
  "\<exists>g. main 20 20 3 9 10 [([27, 91, 67], 0, 0)] = Inr (4, g) \<and> score g = 5 \<and> len g = 2 \<and>
     0 \<le> score g \<and> score g \<le> 100 \<and> 5 dvd score g \<and> (score g = 100 \<longleftrightarrow> score g \<ge> 100)"
proof -
  have m: "main 20 20 3 9 10 [([27, 91, 67], 0, 0)] =
    Inr (4, \<lparr>snake = [\<lparr>x = 10, y = 11\<rparr>, \<lparr>x = 10, y = 11\<rparr>, \<lparr>x = 0, y = 0\<rparr>], len = 2, gameover = 0,
               score = 5, fruitx = 1, fruity = 1\<rparr>)"
    by (simp add: main_def init_game_def fruits_def c_mod_def c_div_def input_def getchar_def
        logic_def move_snake_def move_snake_loop.simps check_collision_def
        check_collision_loop.simps grow_snake_def grow_snake_loop.simps numeral_3_eq_3)
  show ?thesis
    using main_score_multiple_of_5_up_to_100 [OF m] m by simp
qed

section \<open>The run stays inside the array\<close>

text \<open>
  A call of \<^verbatim>\<open>logic\<close> on a snake that leaves a slot free returns without error, with the
  same array size, and either the same length and score or one segment and five points
  more.
\<close>

lemma logic_defined:
  assumes "1 \<le> len g" and "len g < int (length (snake g))" and "WIDTH \<noteq> 2" and "HEIGHT \<noteq> 2"
  shows "\<exists>g'. snd (logic WIDTH HEIGHT flag g r1 r2) = Inr g' \<and>
    length (snake g') = length (snake g) \<and>
    (len g' = len g \<and> score g' = score g \<or> len g' = len g + 1 \<and> score g' = score g + 5)"
proof (cases "flag = 0")
  case True
  then show ?thesis by (simp add: logic_def)
next
  case False
  obtain arr1 where m: "move_snake (snake g) (len g) flag = Inr arr1"
    and l1: "length arr1 = length (snake g)"
    using move_snake_defined [OF assms(1,2)] by blast
  obtain c where c: "check_collision WIDTH HEIGHT arr1 (len g) = Inr c"
    using check_collision_defined [of "len g" arr1] assms(1,2) l1 by auto
  show ?thesis
  proof (cases "c = 0")
    case nz: False
    then have "snd (logic WIDTH HEIGHT flag g r1 r2) = Inr (g\<lparr>snake := arr1, gameover := c\<rparr>)"
      using False m c by (simp add: logic_def)
    then show ?thesis using l1 by simp
  next
    case True
    let ?g0 = "g\<lparr>snake := arr1, gameover := 0\<rparr>"
    let ?h = "arr1 ! nat (len g - 1)"
    have rh: "rd arr1 (len g - 1) = Inr ?h"
      using assms(1,2) l1 by simp
    show ?thesis
    proof (cases "x ?h = fruitx g \<and> y ?h = fruity g")
      case nofruit: False
      have "snd (logic WIDTH HEIGHT flag g r1 r2) =
          Inr (if score ?g0 = 100 then ?g0\<lparr>gameover := - 1\<rparr> else ?g0)"
        using False m c True rh by (simp add: logic_def nofruit)
      then show ?thesis using l1 by auto
    next
      case fruit: True
      obtain fx fy where f: "fruits WIDTH HEIGHT r1 r2 = Inr (fx, fy)"
        using assms(3,4) by (simp add: fruits_ok)
      have "0 \<le> len ?g0" "len ?g0 < int (length (snake ?g0))"
        using assms(1,2) l1 by simp_all
      from grow_snake_result [OF this f]
      obtain arr' where gr: "grow_snake WIDTH HEIGHT ?g0 r1 r2 =
          Inr (?g0\<lparr>snake := arr', len := len ?g0 + 1, score := score ?g0 + 5,
                   fruitx := fx, fruity := fy\<rparr>)"
        and l': "length arr' = length (snake ?g0)"
        by blast
      let ?g2 = "?g0\<lparr>snake := arr', len := len ?g0 + 1, score := score ?g0 + 5,
                   fruitx := fx, fruity := fy\<rparr>"
      have "snd (logic WIDTH HEIGHT flag g r1 r2) =
          Inr (if score ?g2 = 100 then ?g2\<lparr>gameover := - 1\<rparr> else ?g2)"
        using False m c True rh fruit gr by (simp add: logic_def)
      then show ?thesis using l1 l' by auto
    qed
  qed
qed

text \<open>
  A game is over at 100 points, that is with 21 segments, and the snake that
  \<^verbatim>\<open>move_snake\<close> or \<^verbatim>\<open>grow_snake\<close> receives has 20 at most. So with \<open>LENGTH_SNAKE \<ge> 21\<close>, on a
  board with \<open>WIDTH > 2\<close> and \<open>HEIGHT > 2\<close>, no run of \<^verbatim>\<open>main\<close> reads or writes outside the
  array or divides by zero, whatever the keys and the random numbers.
\<close>

lemma main_loop_defined:
  assumes "WIDTH \<noteq> 2" and "HEIGHT \<noteq> 2"
  shows "mem_inv g \<Longrightarrow> score_inv g \<Longrightarrow>
    \<exists>flag' g'. main_loop WIDTH HEIGHT passes flag pending g = Inr (flag', g')"
proof (induction passes arbitrary: flag pending g)
  case Nil
  then show ?case by simp
next
  case (Cons p passes)
  obtain arrived r1 r2 where p: "p = (arrived, r1, r2)"
    by (cases p) auto
  show ?case
  proof (cases "gameover g = 0")
    case False
    then show ?thesis using p by simp
  next
    case True
    obtain f1 pending1 where i: "input flag (pending @ arrived) = (f1, pending1)"
      by (cases "input flag (pending @ arrived)") auto
    show ?thesis
    proof (cases "f1 = - 1")
      case True
      then show ?thesis using p i \<open>gameover g = 0\<close> by simp
    next
      case False
      have "score g \<noteq> 100" "score g \<le> 100" "5 dvd score g"
        using Cons.prems(2) True by (auto simp: score_inv_def)
      then have "score g \<le> 95" by presburger
      then have lt: "1 \<le> len g" "len g < int (length (snake g))"
        using Cons.prems(1) by (auto simp: mem_inv_def)
      obtain g1 where l: "snd (logic WIDTH HEIGHT f1 g r1 r2) = Inr g1"
        and ll: "length (snake g1) = length (snake g)"
        and ls: "len g1 = len g \<and> score g1 = score g \<or> len g1 = len g + 1 \<and> score g1 = score g + 5"
        using logic_defined [OF lt assms, of f1 r1 r2] by blast
      have s1: "score_inv g1"
        using logic_score_inv [OF l Cons.prems(2) True] .
      have m1: "mem_inv g1"
        using Cons.prems(1) ll ls by (auto simp: mem_inv_def)
      obtain flag' g' where "main_loop WIDTH HEIGHT passes f1 pending1 g1 = Inr (flag', g')"
        using Cons.IH [OF m1 s1] by blast
      then show ?thesis
        using p i True False l by simp
    qed
  qed
qed

lemma main_defined:
  assumes "2 < WIDTH" and "2 < HEIGHT" and "21 \<le> LENGTH_SNAKE"
  shows "\<exists>flag g. main WIDTH HEIGHT LENGTH_SNAKE r1 r2 passes = Inr (flag, g)"
proof -
  obtain fx fy where f: "fruits WIDTH HEIGHT r1 r2 = Inr (fx, fy)"
    using assms(1,2) by (simp add: fruits_ok)
  let ?g = "\<lparr>snake = (replicate LENGTH_SNAKE \<lparr>x = 0, y = 0\<rparr>)[0 := \<lparr>x = WIDTH div 2, y = HEIGHT div 2\<rparr>],
         len = 1, gameover = 0, score = 0, fruitx = fx, fruity = fy\<rparr>"
  have i: "init_game WIDTH HEIGHT LENGTH_SNAKE r1 r2 = Inr ?g"
    using init_game_result [OF _ f] assms by simp
  have "mem_inv ?g"
    using assms(3) by (simp add: mem_inv_def)
  moreover have "score_inv ?g"
    by (simp add: score_inv_def)
  ultimately obtain flag g where "main_loop WIDTH HEIGHT passes 0 [] ?g = Inr (flag, g)"
    using main_loop_defined [of WIDTH HEIGHT ?g passes 0 "[]"] assms(1,2) by auto
  then show ?thesis
    using i by (simp add: main_def)
qed

end
